theory Spec2Isabelle
  imports
    Complex_Main
    "HOL-Library.List_Lexorder"
    "HOL-Library.Char_ord"
    "HOL-Library.AList"
begin

section \<open>Data model\<close>

text \<open>
  Go strings are byte sequences, so they are \<open>string\<close> (a list of 8-bit characters);
  \<open>Char_ord\<close> and \<open>List_Lexorder\<close> order them byte-wise and lexicographically, which
  is the order in which Go compares strings and hence that of \<open>slices.Sort\<close>.
\<close>

text \<open>
  A \<open>float64\<close>: a finite value is \<open>(-1)^sign * m * 2^e\<close>, kept exactly; the other
  constructors are the infinities and NaN.
\<close>

datatype float64 = Finite bool nat int | Inf bool | NaN

text \<open>
  What \<open>json.Unmarshal\<close> stores in an \<open>any\<close>: string, float64, bool, nil,
  \<open>[]any\<close> and \<open>map[string]any\<close>. A Go map is an association list whose keys are
  distinct; the order of the list stands for one order in which the map may be iterated.
\<close>

datatype json =
    JString string
  | JNumber float64
  | JBool bool
  | JNull
  | JArray "json list"
  | JObject "(string \<times> json) list"

type_synonym JsonMapObject = "(string \<times> json) list"

type_synonym JsonRawObject = string

datatype error =
    ErrNoCsvRecordBatchGot
  | ErrKeyNotFound string
  | ErrInvalidTypeMapping string
  | UnsupportedValueError string
  | NilDereference
  | Joined "error list"
  | ExternalError string

record CsvForSchema =
  HeaderLine :: string
  Row1st :: string

text \<open>\<open>arrow.DataType\<close>: the three types the program names, and any other with its \<open>Name()\<close>.\<close>

datatype DataType = Float64Type | StringType | BooleanType | OtherType string

record Field =
  arrow_Name :: string
  arrow_Type :: DataType
  arrow_Nullable :: bool

type_synonym Schema = "Field list"

record RecordBatch =
  batch_Schema :: Schema

datatype Option =
    WithHeader bool
  | WithIncludeColumns "string list"
  | WithColumnTypes "(string \<times> DataType) list"

text \<open>
  The state of an \<open>ac.Reader\<close>: the record batches it has still to produce and the current
  one (\<open>None\<close> is Go's nil).
\<close>

record Reader =
  pending :: "RecordBatch list"
  cur :: "RecordBatch option"
  released :: bool

record SerializableField =
  Name :: string
  Type :: string
  Nullable :: bool

record SerializableSchema =
  Fields :: "SerializableField list"

text \<open>
  An \<open>io.ReadCloser\<close> is what \<open>io.ReadAll\<close> returns on it and what \<open>Close\<close> returns;
  an \<open>io.WriteCloser\<close> is the bytes written so far, the error every \<open>Write\<close> returns (if
  any), what \<open>Close\<close> returns, and whether it has been closed.
\<close>

record ReadCloser =
  rc_data :: "error + string"
  rc_close :: "error option"
  rc_closed :: bool

record WriteCloser =
  wc_buf :: string
  wc_write :: "error option"
  wc_close :: "error option"
  wc_closed :: bool

record flag_values =
  flag_input :: string
  flag_output :: string
  flag_pretty :: bool
  flag_include :: string
  flag_types :: string

text \<open>
  The libraries and the operating system, as far as the program calls them:
  the string and float encoders of \<open>encoding/json\<close>, \<open>json.Unmarshal\<close> into a map,
  \<open>flag.FlagSet.Parse\<close> on the seven registered flags, \<open>os.Open\<close>, \<open>os.Create\<close>,
  arrow's \<open>csv.NewInferringReader\<close> and \<open>Schema.String\<close>.
\<close>

record lib =
  appendString :: "string \<Rightarrow> string"
  floatEncoder :: "float64 \<Rightarrow> string"
  Unmarshal :: "string \<Rightarrow> error + JsonMapObject"
  flag_Parse :: "string list \<Rightarrow> error + flag_values"
  os_Open :: "string \<Rightarrow> error + ReadCloser"
  os_Create :: "string \<Rightarrow> error + WriteCloser"
  NewInferringReader :: "string \<Rightarrow> Option list \<Rightarrow> Reader"
  Schema_String :: "Schema \<Rightarrow> string"

text \<open>
  The struct \<open>cli\<close>. The last field is not in the Go struct: it lists the paths that
  have been passed to \<open>os.Open\<close> and \<open>os.Create\<close>, in order.
\<close>

record cli =
  Input :: ReadCloser
  Output :: WriteCloser
  Args :: "string list"
  ExitCode :: int
  opened :: "string list"

section \<open>Standard library\<close>

abbreviation NL :: char where "NL \<equiv> CHR 0x0A"

fun Join :: "string list \<Rightarrow> string \<Rightarrow> string" where
  "Join [] sep = []"
| "Join [x] sep = x"
| "Join (x # y # ys) sep = x @ sep @ Join (y # ys) sep"

text \<open>\<open>strings.Split\<close> with a one-byte separator.\<close>

fun Split :: "string \<Rightarrow> char \<Rightarrow> string list" where
  "Split [] sep = [[]]"
| "Split (c # cs) sep =
     (if c = sep then [] # Split cs sep
      else (case Split cs sep of [] \<Rightarrow> [[c]] | x # xs \<Rightarrow> (c # x) # xs))"

text \<open>\<open>errors.Join\<close>: nil values are dropped, and the result is nil when nothing is left.\<close>

definition errors_Join :: "error option list \<Rightarrow> error option" where
  "errors_Join errs =
     (let es = List.map_filter id errs in if es = [] then None else Some (Joined es))"

fun error_string :: "error \<Rightarrow> string" where
  "error_string ErrNoCsvRecordBatchGot = ''no csv record batch got''"
| "error_string (ErrKeyNotFound k) = ''key not found: '' @ k"
| "error_string (ErrInvalidTypeMapping p) = ''invalid type mapping: '' @ p"
| "error_string (UnsupportedValueError s) = ''json: unsupported value: '' @ s"
| "error_string NilDereference = ''invalid memory address or nil pointer dereference''"
| "error_string (Joined es) = Join (map error_string es) [NL]"
| "error_string (ExternalError s) = s"

subsection \<open>Decimal digits and the verb \<open>%f\<close>\<close>

definition digit :: "nat \<Rightarrow> char" where
  "digit d = char_of (48 + d)"

definition is_digit :: "char \<Rightarrow> bool" where
  "is_digit c = (CHR ''0'' \<le> c \<and> c \<le> CHR ''9'')"

fun itoa :: "nat \<Rightarrow> string" where
  "itoa n = (if n < 10 then [digit n] else itoa (n div 10) @ [digit (n mod 10)])"

declare itoa.simps [simp del]

primrec digitsN :: "nat \<Rightarrow> nat \<Rightarrow> string" where
  "digitsN 0 n = []"
| "digitsN (Suc k) n = digitsN k (n div 10) @ [digit (n mod 10)]"

definition roundHalfEven :: "nat \<Rightarrow> nat \<Rightarrow> nat" where
  "roundHalfEven n d =
     (let q = n div d; r = n mod d
      in if d < 2 * r \<or> (2 * r = d \<and> odd q) then q + 1 else q)"

text \<open>\<open>|m * 2^e|\<close> in millionths, rounded to the nearest, ties to even.\<close>

definition scaled6 :: "nat \<Rightarrow> int \<Rightarrow> nat" where
  "scaled6 m e =
     (if 0 \<le> e then m * 2 ^ nat e * 10 ^ 6
      else roundHalfEven (m * 10 ^ 6) (2 ^ nat (- e)))"

text \<open>
  \<open>fmt.Sprintf("%f", v)\<close>: precision 6, the exact decimal expansion of the value rounded
  to nearest even, a minus sign when the sign bit is set.
\<close>

fun Sprintf_f :: "float64 \<Rightarrow> string" where
  "Sprintf_f (Finite neg m e) =
     (let n = scaled6 m e
      in (if neg then ''-'' else '''') @ itoa (n div 10 ^ 6) @ ''.'' @ digitsN 6 (n mod 10 ^ 6))"
| "Sprintf_f (Inf neg) = (if neg then ''-Inf'' else ''+Inf'')"
| "Sprintf_f NaN = ''NaN''"

definition FormatBool :: "bool \<Rightarrow> string" where
  "FormatBool b = (if b then ''true'' else ''false'')"

subsection \<open>White space\<close>

text \<open>
  The UTF-8 encodings of the code points for which \<open>unicode.IsSpace\<close> holds:
  U+0009 to U+000D, U+0020, U+0085, U+00A0, U+1680, U+2000 to U+200A, U+2028, U+2029,
  U+202F, U+205F, U+3000.
\<close>

definition space_runes :: "string list" where
  "space_runes =
     [[CHR 0x09], [CHR 0x0A], [CHR 0x0B], [CHR 0x0C], [CHR 0x0D], [CHR 0x20],
      [CHR 0xC2, CHR 0x85], [CHR 0xC2, CHR 0xA0],
      [CHR 0xE1, CHR 0x9A, CHR 0x80],
      [CHR 0xE2, CHR 0x80, CHR 0x80], [CHR 0xE2, CHR 0x80, CHR 0x81],
      [CHR 0xE2, CHR 0x80, CHR 0x82], [CHR 0xE2, CHR 0x80, CHR 0x83],
      [CHR 0xE2, CHR 0x80, CHR 0x84], [CHR 0xE2, CHR 0x80, CHR 0x85],
      [CHR 0xE2, CHR 0x80, CHR 0x86], [CHR 0xE2, CHR 0x80, CHR 0x87],
      [CHR 0xE2, CHR 0x80, CHR 0x88], [CHR 0xE2, CHR 0x80, CHR 0x89],
      [CHR 0xE2, CHR 0x80, CHR 0x8A],
      [CHR 0xE2, CHR 0x80, CHR 0xA8], [CHR 0xE2, CHR 0x80, CHR 0xA9],
      [CHR 0xE2, CHR 0x80, CHR 0xAF], [CHR 0xE2, CHR 0x81, CHR 0x9F],
      [CHR 0xE3, CHR 0x80, CHR 0x80]]"

definition starts_with :: "string \<Rightarrow> string \<Rightarrow> bool" where
  "starts_with s p = (take (length p) s = p)"

text \<open>The length of the space rune that \<open>s\<close> begins with, 0 when it begins with none.\<close>

definition space_width :: "string list \<Rightarrow> string \<Rightarrow> nat" where
  "space_width tab s = (case find (starts_with s) tab of None \<Rightarrow> 0 | Some p \<Rightarrow> length p)"

function trim_runes :: "string list \<Rightarrow> string \<Rightarrow> string" where
  "trim_runes tab s =
     (if space_width tab s = 0 then s else trim_runes tab (drop (space_width tab s) s))"
  by pat_completeness auto
termination
proof (relation "measure (\<lambda>(tab, s). length s)")
  show "wf (measure (\<lambda>(tab, s). length s))" by simp
next
  fix tab :: "string list" and s :: string
  assume w: "space_width tab s \<noteq> 0"
  then obtain p where p: "find (starts_with s) tab = Some p" "p \<noteq> []"
    by (auto simp: space_width_def split: option.splits)
  then have "starts_with s p"
    by (auto simp: find_Some_iff)
  with p have "s \<noteq> []"
    by (auto simp: starts_with_def)
  with w show "((tab, drop (space_width tab s) s), (tab, s)) \<in> measure (\<lambda>(tab, s). length s)"
    by simp
qed

declare trim_runes.simps [simp del]

text \<open>
  \<open>strings.TrimSpace\<close>: leading and trailing white space removed, where white space is
  a rune of \<open>unicode.IsSpace\<close>.
\<close>

definition TrimSpace :: "string \<Rightarrow> string" where
  "TrimSpace s =
     rev (trim_runes (map rev space_runes) (rev (trim_runes space_runes s)))"

subsection \<open>\<open>encoding/json\<close>: compact encoding\<close>

fun collect :: "(error + 'a) list \<Rightarrow> error + 'a list" where
  "collect [] = Inr []"
| "collect (r # rs) =
     (case r of
        Inl e \<Rightarrow> Inl e
      | Inr x \<Rightarrow> (case collect rs of Inl e \<Rightarrow> Inl e | Inr xs \<Rightarrow> Inr (x # xs)))"

text \<open>
  The encoding of a decoded value: no white space, the members of an object in the order
  of their keys, and an \<open>UnsupportedValueError\<close> on an infinity or NaN.
\<close>

fun marshal :: "(string \<Rightarrow> string) \<Rightarrow> (float64 \<Rightarrow> string) \<Rightarrow> json \<Rightarrow> error + string" where
  "marshal q g JNull = Inr ''null''"
| "marshal q g (JBool b) = Inr (if b then ''true'' else ''false'')"
| "marshal q g (JString s) = Inr (q s)"
| "marshal q g (JNumber f) =
     (case f of
        Finite neg m e \<Rightarrow> Inr (g f)
      | _ \<Rightarrow> Inl (UnsupportedValueError (Sprintf_f f)))"
| "marshal q g (JArray vs) =
     (case collect (map (marshal q g) vs) of
        Inl e \<Rightarrow> Inl e
      | Inr xs \<Rightarrow> Inr (''['' @ Join xs '','' @ '']''))"
| "marshal q g (JObject kvs) =
     (case collect (map (\<lambda>(k, v). case marshal q g v of
                                     Inl e \<Rightarrow> Inl e
                                   | Inr s \<Rightarrow> Inr (q k @ '':'' @ s))
                        (sort_key fst kvs)) of
        Inl e \<Rightarrow> Inl e
      | Inr xs \<Rightarrow> Inr (''{'' @ Join xs '','' @ ''}''))"

definition Marshal :: "lib \<Rightarrow> json \<Rightarrow> error + string" where
  "Marshal L v = marshal (appendString L) (floatEncoder L) v"

text \<open>\<open>json.Encoder.Encode\<close> into a buffer: the encoding and a newline.\<close>

definition Encode :: "lib \<Rightarrow> json \<Rightarrow> error + string" where
  "Encode L v = (case Marshal L v of Inl e \<Rightarrow> Inl e | Inr s \<Rightarrow> Inr (s @ [NL]))"

subsection \<open>\<open>encoding/csv\<close>: the writer of \<open>csv.NewWriter\<close>\<close>

text \<open>The comma is \<open>,\<close> and lines end in a newline (\<open>UseCRLF\<close> is false).\<close>

definition fieldNeedsQuotes :: "string \<Rightarrow> bool" where
  "fieldNeedsQuotes field =
     (if field = [] then False
      else if field = [CHR 0x5C, CHR ''.''] then True
      else if list_ex (\<lambda>c. c = NL \<or> c = CHR 0x0D \<or> c = CHR 0x22 \<or> c = CHR '','') field
        then True
      else list_ex (starts_with field) space_runes)"

fun quoteField :: "string \<Rightarrow> string" where
  "quoteField [] = []"
| "quoteField (c # cs) =
     (if c = CHR 0x22 then [CHR 0x22, CHR 0x22] @ quoteField cs
      else if c = CHR 0x0D then [CHR 0x0D] @ quoteField cs
      else if c = NL then [NL] @ quoteField cs
      else c # quoteField cs)"

definition writeField :: "string \<Rightarrow> string" where
  "writeField field =
     (if \<not> fieldNeedsQuotes field then field
      else [CHR 0x22] @ quoteField field @ [CHR 0x22])"

text \<open>
  \<open>Writer.Write\<close> followed by \<open>Flush\<close>: the error (always nil: the comma is valid and the
  buffer is in memory) and the bytes that reach the buffer.
\<close>

definition csv_Write :: "string list \<Rightarrow> error option \<times> string" where
  "csv_Write record = (None, Join (map writeField record) '','' @ [NL])"

section \<open>json2schema.go\<close>

type_synonym MapToHeaderLine = "JsonMapObject \<Rightarrow> error + string"
type_synonym MapToRow1st = "JsonMapObject \<Rightarrow> error + string"
type_synonym MapToHeaderStrings = "JsonMapObject \<Rightarrow> error + string list"
type_synonym MapToValueStrings = "JsonMapObject \<Rightarrow> error + string list"
type_synonym JsonToCsvRaw = "JsonRawObject \<Rightarrow> CsvForSchema \<times> error option"

record MapToCsv =
  MapToHeaderLine :: MapToHeaderLine
  MapToRow1st :: MapToRow1st

record MapToStrings =
  MapToHeaderStrings :: MapToHeaderStrings
  MapToValueStrings :: MapToValueStrings

definition err_of :: "error + 'a \<Rightarrow> error option" where
  "err_of r = (case r of Inl e \<Rightarrow> Some e | Inr _ \<Rightarrow> None)"

definition bytes_of :: "error + string \<Rightarrow> string" where
  "bytes_of r = (case r of Inl _ \<Rightarrow> [] | Inr b \<Rightarrow> b)"

definition ToJsonToCsvRaw :: "lib \<Rightarrow> MapToCsv \<Rightarrow> JsonToCsvRaw" where
  "ToJsonToCsvRaw L m = (\<lambda>j.
     case Unmarshal L j of
       Inl e \<Rightarrow> (\<lparr>HeaderLine = [], Row1st = []\<rparr>, Some e)
     | Inr jmap \<Rightarrow>
         (let hline = MapToHeaderLine m jmap;
              ro1st = MapToRow1st m jmap
          in (\<lparr>HeaderLine = bytes_of hline, Row1st = bytes_of ro1st\<rparr>,
              errors_Join [err_of hline, err_of ro1st])))"

text \<open>
  \<open>maps.Keys\<close> and \<open>slices.Collect\<close> give the keys in the order of the iteration;
  \<open>slices.Sort\<close> sorts them.
\<close>

definition MapToHeaderStrsSorted :: "JsonMapObject \<Rightarrow> error + string list" where
  "MapToHeaderStrsSorted j = (let slc = map fst j in Inr (sort slc))"

fun val2str :: "lib \<Rightarrow> json \<Rightarrow> error + string" where
  "val2str L (JString typedVal) = Inr typedVal"
| "val2str L (JNumber typedVal) = Inr (Sprintf_f typedVal)"
| "val2str L (JBool typedVal) = Inr (FormatBool typedVal)"
| "val2str L val =
     (case Encode L val of
        Inl e \<Rightarrow> Inl e
      | Inr s \<Rightarrow> Inr (TrimSpace s))"

fun vals_loop :: "lib \<Rightarrow> JsonMapObject \<Rightarrow> string list \<Rightarrow> string list \<Rightarrow> error + string list" where
  "vals_loop L jsonMap [] vals = Inr vals"
| "vals_loop L jsonMap (k # keys) vals =
     (case map_of jsonMap k of
        None \<Rightarrow> Inl (ErrKeyNotFound k)
      | Some val \<Rightarrow>
          (case val2str L val of
             Inl e \<Rightarrow> Inl e
           | Inr s \<Rightarrow> vals_loop L jsonMap keys (vals @ [s])))"

definition MapToValueStrsSorted :: "lib \<Rightarrow> JsonMapObject \<Rightarrow> error + string list" where
  "MapToValueStrsSorted L jsonMap =
     (case MapToHeaderStrsSorted jsonMap of
        Inl e \<Rightarrow> Inl e
      | Inr keys \<Rightarrow> vals_loop L jsonMap keys [])"

definition ToMapToRow1st :: "MapToStrings \<Rightarrow> MapToRow1st" where
  "ToMapToRow1st m = (\<lambda>j.
     case MapToValueStrings m j of
       Inl err \<Rightarrow> Inl err
     | Inr vals \<Rightarrow>
         (case csv_Write vals of
            (Some err, _) \<Rightarrow> Inl err
          | (None, buf) \<Rightarrow> Inr buf))"

definition ToMapToHeaderLine :: "MapToStrings \<Rightarrow> MapToHeaderLine" where
  "ToMapToHeaderLine m = (\<lambda>j.
     case MapToHeaderStrings m j of
       Inl err \<Rightarrow> Inl err
     | Inr keys \<Rightarrow>
         (case csv_Write keys of
            (Some err, _) \<Rightarrow> Inl err
          | (None, buf) \<Rightarrow> Inr buf))"

definition ToReader :: "lib \<Rightarrow> string \<Rightarrow> Option list \<Rightarrow> Reader" where
  "ToReader L c opts = (let allOpts = [WithHeader True] @ opts in NewInferringReader L c allOpts)"

definition Reader_Next :: "Reader \<Rightarrow> bool \<times> Reader" where
  "Reader_Next rdr =
     (case pending rdr of
        [] \<Rightarrow> (False, rdr\<lparr>cur := None\<rparr>)
      | b # bs \<Rightarrow> (True, rdr\<lparr>pending := bs, cur := Some b\<rparr>))"

definition Reader_Release :: "Reader \<Rightarrow> Reader" where
  "Reader_Release rdr = rdr\<lparr>released := True\<rparr>"

text \<open>
  \<open>ToSchema\<close> on a reader: the loop returns in its first iteration; the deferred
  \<open>Release\<close> runs on both ways out.
\<close>

definition Reader_ToSchema :: "Reader \<Rightarrow> (error + Schema) \<times> Reader" where
  "Reader_ToSchema rdr0 =
     (case Reader_Next rdr0 of
        (True, rdr) \<Rightarrow>
          (case cur rdr of
             None \<Rightarrow> (Inl NilDereference, Reader_Release rdr)
           | Some rec \<Rightarrow> (Inr (batch_Schema rec), Reader_Release rdr))
      | (False, rdr) \<Rightarrow> (Inl ErrNoCsvRecordBatchGot, Reader_Release rdr))"

definition ToSchema :: "lib \<Rightarrow> string \<Rightarrow> Option list \<Rightarrow> error + Schema" where
  "ToSchema L c opts = fst (Reader_ToSchema (ToReader L c opts))"

section \<open>The command\<close>

definition expectedTypeMappingParts :: nat where
  "expectedTypeMappingParts = 2"

definition typeFromString :: "string \<Rightarrow> DataType" where
  "typeFromString s =
     (if s = ''string'' then StringType
      else if s = ''float64'' then Float64Type
      else if s = ''bool'' then BooleanType
      else StringType)"

fun pairs_loop :: "string list \<Rightarrow> (string \<times> DataType) list \<Rightarrow> error + (string \<times> DataType) list" where
  "pairs_loop [] columnTypes = Inr columnTypes"
| "pairs_loop (pair # pairs) columnTypes =
     (let kv = Split pair (CHR '':'')
      in if length kv \<noteq> expectedTypeMappingParts then Inl (ErrInvalidTypeMapping pair)
         else pairs_loop pairs (AList.update (kv ! 0) (typeFromString (kv ! 1)) columnTypes))"

definition parseFlags ::
  "lib \<Rightarrow> cli \<Rightarrow> error + (bool \<times> string list \<times> (string \<times> DataType) list \<times> string \<times> string)" where
  "parseFlags L cliApp =
     (case flag_Parse L (Args cliApp) of
        Inl err \<Rightarrow> Inl err
      | Inr fl \<Rightarrow>
          (let includeColumns =
                 (if flag_include fl \<noteq> [] then Split (flag_include fl) (CHR '','') else [])
           in case (if flag_types fl \<noteq> [] then pairs_loop (Split (flag_types fl) (CHR '','')) []
                    else Inr []) of
                Inl err \<Rightarrow> Inl err
              | Inr columnTypes \<Rightarrow>
                  Inr (flag_pretty fl, includeColumns, columnTypes, flag_input fl, flag_output fl)))"

definition openInput :: "lib \<Rightarrow> cli \<Rightarrow> string \<Rightarrow> error option \<times> cli" where
  "openInput L cliApp inputFile =
     (if inputFile \<noteq> [] then
        (case os_Open L inputFile of
           Inl err \<Rightarrow> (Some err, cliApp\<lparr>opened := opened cliApp @ [inputFile]\<rparr>)
         | Inr file \<Rightarrow> (None, cliApp\<lparr>Input := file, opened := opened cliApp @ [inputFile]\<rparr>))
      else (None, cliApp))"

definition openOutput :: "lib \<Rightarrow> cli \<Rightarrow> string \<Rightarrow> error option \<times> cli" where
  "openOutput L cliApp outputFile =
     (if outputFile \<noteq> [] then
        (case os_Create L outputFile of
           Inl err \<Rightarrow> (Some err, cliApp\<lparr>opened := opened cliApp @ [outputFile]\<rparr>)
         | Inr file \<Rightarrow> (None, cliApp\<lparr>Output := file, opened := opened cliApp @ [outputFile]\<rparr>))
      else (None, cliApp))"

definition createOptions :: "string list \<Rightarrow> (string \<times> DataType) list \<Rightarrow> Option list" where
  "createOptions includeColumns columnTypes =
     (let opts = [];
          opts = (if 0 < length includeColumns then opts @ [WithIncludeColumns includeColumns]
                  else opts);
          opts = (if 0 < length columnTypes then opts @ [WithColumnTypes columnTypes] else opts)
      in opts)"

definition field_entry :: "Field \<Rightarrow> SerializableField" where
  "field_entry field =
     (case arrow_Type field of
        Float64Type \<Rightarrow>
          \<lparr>Name = arrow_Name field, Type = ''float64'', Nullable = arrow_Nullable field\<rparr>
      | StringType \<Rightarrow>
          \<lparr>Name = arrow_Name field, Type = ''utf8'', Nullable = arrow_Nullable field\<rparr>
      | BooleanType \<Rightarrow>
          \<lparr>Name = arrow_Name field, Type = ''bool'', Nullable = arrow_Nullable field\<rparr>
      | OtherType name \<Rightarrow>
          \<lparr>Name = arrow_Name field, Type = name, Nullable = arrow_Nullable field\<rparr>)"

fun fields_loop :: "(nat \<times> Field) list \<Rightarrow> SerializableField list \<Rightarrow> SerializableField list" where
  "fields_loop [] out = out"
| "fields_loop ((idx, field) # rest) out = fields_loop rest (out[idx := field_entry field])"

definition toSerializableSchema :: "Schema \<Rightarrow> SerializableSchema" where
  "toSerializableSchema schema =
     \<lparr>Fields = fields_loop (enumerate 0 schema)
                 (replicate (length schema) \<lparr>Name = [], Type = [], Nullable = False\<rparr>)\<rparr>"

subsection \<open>\<open>json.MarshalIndent\<close>\<close>

datatype jdoc =
    DString string
  | DBool bool
  | DArray "jdoc list"
  | DObject "(string \<times> jdoc) list"

definition doc_of_field :: "SerializableField \<Rightarrow> jdoc" where
  "doc_of_field f =
     DObject [(''name'', DString (Name f)), (''type'', DString (Type f)),
              (''nullable'', DBool (Nullable f))]"

definition doc_of_schema :: "SerializableSchema \<Rightarrow> jdoc" where
  "doc_of_schema s = DObject [(''fields'', DArray (map doc_of_field (Fields s)))]"

definition newline :: "string \<Rightarrow> nat \<Rightarrow> string" where
  "newline indent depth = [NL] @ concat (replicate depth indent)"

text \<open>
  The indented form: every element of a non-empty array or object starts on a line of
  its own, indented by one more copy of \<open>indent\<close> than its parent; a colon is followed
  by a space; an empty array or object stays closed on the line.
\<close>

fun indent_doc :: "(string \<Rightarrow> string) \<Rightarrow> string \<Rightarrow> nat \<Rightarrow> jdoc \<Rightarrow> string" where
  "indent_doc q indent depth (DString s) = q s"
| "indent_doc q indent depth (DBool b) = (if b then ''true'' else ''false'')"
| "indent_doc q indent depth (DArray xs) =
     (if xs = [] then ''[]''
      else ''['' @ newline indent (Suc depth)
           @ Join (map (indent_doc q indent (Suc depth)) xs) ('','' @ newline indent (Suc depth))
           @ newline indent depth @ '']'')"
| "indent_doc q indent depth (DObject kvs) =
     (if kvs = [] then ''{}''
      else ''{'' @ newline indent (Suc depth)
           @ Join (map (\<lambda>(k, v). q k @ '': '' @ indent_doc q indent (Suc depth) v) kvs)
                  ('','' @ newline indent (Suc depth))
           @ newline indent depth @ ''}'')"

definition MarshalIndent :: "lib \<Rightarrow> SerializableSchema \<Rightarrow> string \<Rightarrow> error + string" where
  "MarshalIndent L s indent = Inr (indent_doc (appendString L) indent 0 (doc_of_schema s))"

subsection \<open>Writing\<close>

definition Write :: "WriteCloser \<Rightarrow> string \<Rightarrow> error option \<times> WriteCloser" where
  "Write w b =
     (if wc_closed w then (Some (ExternalError ''file already closed''), w)
      else (case wc_write w of
              Some e \<Rightarrow> (Some e, w)
            | None \<Rightarrow> (None, w\<lparr>wc_buf := wc_buf w @ b\<rparr>)))"

definition Fprint :: "cli \<Rightarrow> string \<Rightarrow> cli" where
  "Fprint cliApp s = cliApp\<lparr>Output := snd (Write (Output cliApp) s)\<rparr>"

text \<open>The pipeline: \<open>run(r, writer, pretty, opts)\<close>.\<close>

definition j2c :: "lib \<Rightarrow> JsonToCsvRaw" where
  "j2c L =
     ToJsonToCsvRaw L
       \<lparr>MapToHeaderLine =
          ToMapToHeaderLine \<lparr>MapToHeaderStrings = MapToHeaderStrsSorted,
                             MapToValueStrings = MapToValueStrsSorted L\<rparr>,
        MapToRow1st =
          ToMapToRow1st \<lparr>MapToHeaderStrings = MapToHeaderStrsSorted,
                         MapToValueStrings = MapToValueStrsSorted L\<rparr>\<rparr>"

definition run :: "lib \<Rightarrow> ReadCloser \<Rightarrow> WriteCloser \<Rightarrow> bool \<Rightarrow> Option list \<Rightarrow> error option \<times> WriteCloser" where
  "run L r writer pretty opts =
     (case rc_data r of
        Inl err \<Rightarrow> (Some err, writer)
      | Inr jsonBytes \<Rightarrow>
          (case j2c L jsonBytes of
             (_, Some err) \<Rightarrow> (Some err, writer)
           | (csvData, None) \<Rightarrow>
               (let buf = HeaderLine csvData @ Row1st csvData
                in case ToSchema L buf opts of
                     Inl err \<Rightarrow> (Some err, writer)
                   | Inr schema \<Rightarrow>
                       (if pretty then
                          (let serializableSchema = toSerializableSchema schema
                           in case MarshalIndent L serializableSchema ''  '' of
                                Inl err \<Rightarrow> (Some err, writer)
                              | Inr jsonBytes \<Rightarrow> Write writer jsonBytes)
                        else Write writer (Schema_String L schema @ [NL])))))"

text \<open>The two deferred functions of \<open>cli.run\<close>.\<close>

definition close_input :: "cli \<Rightarrow> cli" where
  "close_input cliApp =
     (let c = cliApp\<lparr>Input := (Input cliApp)\<lparr>rc_closed := True\<rparr>\<rparr>
      in case rc_close (Input cliApp) of
           None \<Rightarrow> c
         | Some err \<Rightarrow>
             (Fprint c (''Error closing input file: '' @ error_string err @ [NL]))\<lparr>ExitCode := 1\<rparr>)"

definition close_output :: "cli \<Rightarrow> cli" where
  "close_output cliApp =
     (let c = cliApp\<lparr>Output := (Output cliApp)\<lparr>wc_closed := True\<rparr>\<rparr>
      in case wc_close (Output cliApp) of
           None \<Rightarrow> c
         | Some err \<Rightarrow>
             (Fprint c (''Error closing output file: '' @ error_string err @ [NL]))\<lparr>ExitCode := 1\<rparr>)"

text \<open>
  \<open>cli.run\<close>: the result is the value of the \<open>return\<close> statement that is reached; the
  deferred functions registered by then run after that value has been computed, last
  registered first, and change only the state.
\<close>

definition cli_run :: "lib \<Rightarrow> cli \<Rightarrow> int \<times> cli" where
  "cli_run L cliApp =
     (case parseFlags L cliApp of
        Inl err \<Rightarrow> (1, Fprint cliApp (error_string err @ [NL]))
      | Inr (pretty, includeColumns, columnTypes, inputFile, outputFile) \<Rightarrow>
          (case openInput L cliApp inputFile of
             (Some err, c1) \<Rightarrow>
               (1, Fprint c1 (''Error opening input file: '' @ error_string err @ [NL]))
           | (None, c1) \<Rightarrow>
               (case openOutput L c1 outputFile of
                  (Some err, c2) \<Rightarrow>
                    (1, close_input
                          (Fprint c2 (''Error creating output file: '' @ error_string err @ [NL])))
                | (None, c2) \<Rightarrow>
                    (let opts = createOptions includeColumns columnTypes;
                         (err, w) = run L (Input c2) (Output c2) pretty opts;
                         c3 = c2\<lparr>Output := w\<rparr>
                     in case err of
                          Some e \<Rightarrow>
                            (1, close_input (close_output
                                  (Fprint c3 (''Error: '' @ error_string e @ [NL]))))
                        | None \<Rightarrow> (ExitCode c3, close_input (close_output c3))))))"

text \<open>\<open>main\<close>: the process exits with the code \<open>cli.run\<close> returns.\<close>

definition main_exit :: "lib \<Rightarrow> ReadCloser \<Rightarrow> WriteCloser \<Rightarrow> string list \<Rightarrow> int" where
  "main_exit L stdin stdout args =
     fst (cli_run L \<lparr>Input = stdin, Output = stdout, Args = args, ExitCode = 0, opened = []\<rparr>)"

section \<open>Predicates and examples\<close>

text \<open>A value with no structure under it: a string, a number or a boolean.\<close>

fun is_leaf :: "json \<Rightarrow> bool" where
  "is_leaf (JString s) = True"
| "is_leaf (JNumber f) = True"
| "is_leaf (JBool b) = True"
| "is_leaf v = False"

text \<open>
  A value that \<open>json.Unmarshal\<close> can produce: every number in it is finite (a JSON number
  out of the range of \<open>float64\<close> is a decoding error).
\<close>

fun decoded :: "json \<Rightarrow> bool" where
  "decoded (JNumber f) = (case f of Finite neg m e \<Rightarrow> True | _ \<Rightarrow> False)"
| "decoded (JArray vs) = (\<forall>v \<in> set vs. decoded v)"
| "decoded (JObject kvs) = (\<forall>(k, v) \<in> set kvs. decoded v)"
| "decoded v = True"

text \<open>
  A value the flattener accepts: a string, number or boolean, or any decoded value (so
  also a structure whose leaves are strings, numbers and booleans).
\<close>

definition flattenable :: "json \<Rightarrow> bool" where
  "flattenable v = (is_leaf v \<or> decoded v)"

text \<open>The number a string of decimal digits denotes.\<close>

definition decimal_value :: "string \<Rightarrow> nat" where
  "decimal_value s = foldl (\<lambda>a c. 10 * a + (of_char c - 48)) 0 s"

text \<open>The absolute value of a finite \<open>float64\<close>, \<open>m * 2^e\<close>, as a real number.\<close>

definition magnitude :: "nat \<Rightarrow> int \<Rightarrow> real" where
  "magnitude m e = (if 0 \<le> e then real m * 2 ^ nat e else real m / 2 ^ nat (- e))"

definition bracketed :: "string \<Rightarrow> bool" where
  "bracketed s = (s = ''null'' \<or> (\<exists>x. s = ''['' @ x @ '']'') \<or> (\<exists>x. s = ''{'' @ x @ ''}''))"

text \<open>The object \<open>{"b": 1.5, "a": true}\<close>; 1.5 is \<open>3 * 2^-1\<close>.\<close>

definition example_object :: JsonMapObject where
  "example_object = [(''b'', JNumber (Finite False 3 (- 1))), (''a'', JBool True)]"

definition example_raw :: string where
  \<open>example_raw = ''{"b": 1.5, "a": true}''\<close>

definition example_schema :: Schema where
  "example_schema =
     [\<lparr>arrow_Name = ''a'', arrow_Type = BooleanType, arrow_Nullable = True\<rparr>,
      \<lparr>arrow_Name = ''b'', arrow_Type = Float64Type, arrow_Nullable = True\<rparr>]"

definition no_flags :: flag_values where
  "no_flags =
     \<lparr>flag_input = [], flag_output = [], flag_pretty = False, flag_include = [], flag_types = []\<rparr>"

text \<open>
  One environment, for the examples: strings are quoted without escapes, the example text
  decodes to the example object, the command line is empty or \<open>-types badtoken\<close>, no
  file can be opened, and the CSV reader infers the example schema from the example
  fragment.
\<close>

definition example_lib :: lib where
  "example_lib =
     \<lparr>appendString = (\<lambda>s. [CHR 0x22] @ s @ [CHR 0x22]),
      floatEncoder = Sprintf_f,
      Unmarshal = (\<lambda>raw. if raw = example_raw then Inr example_object
                          else Inl (ExternalError ''invalid character'')),
      flag_Parse = (\<lambda>args. if args = [] then Inr no_flags
                            else if args = [''-types'', ''badtoken'']
                              then Inr (no_flags\<lparr>flag_types := ''badtoken''\<rparr>)
                            else Inl (ExternalError ''flag provided but not defined'')),
      os_Open = (\<lambda>path. Inl (ExternalError ''no such file or directory'')),
      os_Create = (\<lambda>path. Inl (ExternalError ''permission denied'')),
      NewInferringReader = (\<lambda>c opts.
         if c = ''a,b'' @ [NL] @ ''true,1.500000'' @ [NL]
         then \<lparr>pending = [\<lparr>batch_Schema = example_schema\<rparr>], cur = None, released = False\<rparr>
         else \<lparr>pending = [], cur = None, released = False\<rparr>),
      Schema_String = (\<lambda>schema. ''schema:'')\<rparr>"

definition example_stdin :: ReadCloser where
  "example_stdin = \<lparr>rc_data = Inr example_raw, rc_close = None, rc_closed = False\<rparr>"

text \<open>A standard output on which every write succeeds and \<open>Close\<close> fails.\<close>

definition failing_close_stdout :: WriteCloser where
  "failing_close_stdout =
     \<lparr>wc_buf = [], wc_write = None, wc_close = Some (ExternalError ''input/output error''),
      wc_closed = False\<rparr>"

definition example_stdout :: WriteCloser where
  "example_stdout = \<lparr>wc_buf = [], wc_write = None, wc_close = None, wc_closed = False\<rparr>"

definition example_cli :: cli where
  "example_cli =
     \<lparr>Input = example_stdin, Output = example_stdout, Args = [], ExitCode = 0, opened = []\<rparr>"

definition failing_close_cli :: cli where
  "failing_close_cli =
     \<lparr>Input = example_stdin, Output = failing_close_stdout, Args = [], ExitCode = 0, opened = []\<rparr>"

definition bad_types_cli :: cli where
  "bad_types_cli =
     \<lparr>Input = example_stdin, Output = example_stdout, Args = [''-types'', ''badtoken''],
      ExitCode = 0, opened = []\<rparr>"

text \<open>A decoder that yields the example object with its keys in the other order.\<close>

definition reversed_decoder :: "string \<Rightarrow> error + JsonMapObject" where
  "reversed_decoder raw =
     (if raw = example_raw then Inr (rev example_object)
      else Inl (ExternalError ''invalid character''))"

text \<open>
  Two association lists that stand for the same Go map: the keys of each are distinct and
  they hold the same entries, in any order.
\<close>

definition same_map :: "JsonMapObject \<Rightarrow> JsonMapObject \<Rightarrow> bool" where
  "same_map j1 j2 = (distinct (map fst j1) \<and> distinct (map fst j2) \<and> set j1 = set j2)"

definition same_decoding :: "error + JsonMapObject \<Rightarrow> error + JsonMapObject \<Rightarrow> bool" where
  "same_decoding r1 r2 =
     (case r1 of
        Inl e \<Rightarrow> r2 = Inl e
      | Inr j1 \<Rightarrow> (case r2 of Inl e \<Rightarrow> False | Inr j2 \<Rightarrow> same_map j1 j2))"

text \<open>A token of \<open>-types\<close> that is not one name, one colon and one type.\<close>

definition malformed :: "string \<Rightarrow> bool" where
  "malformed pair = (length (Split pair (CHR '':'')) \<noteq> 2)"

subsection \<open>The pretty form as the specification words it\<close>

text \<open>
  The type names of the pretty form: \<open>float64\<close>, \<open>utf8\<close>, \<open>bool\<close>, and the
  collaborator's own name for any other type.
\<close>

definition spec_type_name :: "DataType \<Rightarrow> string" where
  "spec_type_name t =
     (case t of Float64Type \<Rightarrow> ''float64'' | StringType \<Rightarrow> ''utf8'' | BooleanType \<Rightarrow> ''bool''
      | OtherType name \<Rightarrow> name)"

definition spec_field :: "Field \<Rightarrow> SerializableField" where
  "spec_field f =
     \<lparr>Name = arrow_Name f, Type = spec_type_name (arrow_Type f), Nullable = arrow_Nullable f\<rparr>"

text \<open>
  One element of the \<open>fields\<close> array, written out with its indentation: the element
  sits at depth two (four spaces) and its members at depth three (six spaces).
\<close>

definition spec_element :: "(string \<Rightarrow> string) \<Rightarrow> SerializableField \<Rightarrow> string" where
  "spec_element q f =
     ''{'' @ [NL] @
     ''      '' @ q ''name'' @ '': '' @ q (Name f) @ '','' @ [NL] @
     ''      '' @ q ''type'' @ '': '' @ q (Type f) @ '','' @ [NL] @
     ''      '' @ q ''nullable'' @ '': '' @ (if Nullable f then ''true'' else ''false'') @ [NL] @
     ''    }''"

text \<open>The document: one object with the single member \<open>fields\<close>, at depth one.\<close>

definition spec_document :: "(string \<Rightarrow> string) \<Rightarrow> SerializableField list \<Rightarrow> string" where
  "spec_document q fs =
     (if fs = [] then ''{'' @ [NL] @ ''  '' @ q ''fields'' @ '': []'' @ [NL] @ ''}''
      else ''{'' @ [NL] @
           ''  '' @ q ''fields'' @ '': ['' @ [NL] @
           ''    '' @ Join (map (spec_element q) fs) ('','' @ [NL] @ ''    '') @ [NL] @
           ''  ]'' @ [NL] @
           ''}'')"

section \<open>Auxiliary facts\<close>

text \<open>The order of strings is that of their bytes, position by position.\<close>

lemma string_less_bytewise:
  "([] :: string) < d # ds"
  "\<not> c # cs < ([] :: string)"
  "c # cs < d # ds \<longleftrightarrow> (of_char c :: nat) < of_char d \<or> c = d \<and> cs < ds"
  by (simp_all add: less_char_def)

lemma map_of_key_present: "k \<in> fst ` set j \<Longrightarrow> \<exists>v. map_of j k = Some v \<and> v \<in> snd ` set j"
  by (induction j) (auto simp: image_iff)

lemma collect_error: "collect rs = Inl e \<Longrightarrow> Inl e \<in> set rs"
  by (induction rs) (auto split: sum.splits)

lemma collect_ok: "\<forall>r \<in> set rs. \<exists>x. r = Inr x \<Longrightarrow> \<exists>xs. collect rs = Inr xs"
proof (induction rs)
  case Nil
  then show ?case by simp
next
  case (Cons r rs)
  then obtain x xs where "r = Inr x" "collect rs = Inr xs" by auto
  then show ?case by simp
qed

lemma marshal_error: "marshal q g v = Inl e \<Longrightarrow> \<exists>s. e = UnsupportedValueError s"
proof (induction q g v arbitrary: e rule: marshal.induct)
  case (5 q g vs)
  then show ?case
    by (auto split: sum.splits dest!: collect_error)
next
  case (6 q g kvs)
  then show ?case
    by (auto split: sum.splits dest!: collect_error)
qed (auto split: float64.splits)

lemma val2str_error: "val2str L v = Inl e \<Longrightarrow> \<exists>s. e = UnsupportedValueError s"
  by (cases v)
    (auto simp: Encode_def Marshal_def simp del: marshal.simps split: sum.splits
          dest: marshal_error)

lemma vals_loop_error:
  "set ks \<subseteq> fst ` set j \<Longrightarrow> vals_loop L j ks acc = Inl e \<Longrightarrow> \<exists>s. e = UnsupportedValueError s"
proof (induction ks arbitrary: acc)
  case Nil
  then show ?case by simp
next
  case (Cons k ks)
  then obtain v where "map_of j k = Some v"
    using map_of_key_present [of k j] by auto
  with Cons show ?case
    by (auto split: sum.splits dest: val2str_error)
qed

lemma is_digit_digit: "d < 10 \<Longrightarrow> is_digit (digit d)"
  by (simp add: is_digit_def digit_def less_eq_char_def)

lemma itoa_digits: "itoa n \<noteq> [] \<and> list_all is_digit (itoa n)"
proof (induction n rule: itoa.induct)
  case (1 n)
  show ?case
  proof (cases "n < 10")
    case True
    then show ?thesis
      by (subst itoa.simps, subst (2) itoa.simps) (simp add: is_digit_digit)
  next
    case False
    with 1 show ?thesis
      by (subst itoa.simps, subst (2) itoa.simps) (simp add: is_digit_digit)
  qed
qed

lemma digitsN_digits: "length (digitsN k n) = k \<and> list_all is_digit (digitsN k n)"
  by (induction k arbitrary: n) (simp_all add: is_digit_digit)

lemma marshal_decoded: "decoded v \<Longrightarrow> \<exists>enc. marshal q g v = Inr enc"
proof (induction q g v rule: marshal.induct)
  case (4 q g f)
  then show ?case by (cases f) simp_all
next
  case (5 q g vs)
  then have "\<forall>r \<in> set (map (marshal q g) vs). \<exists>x. r = Inr x" by auto
  from collect_ok [OF this] show ?case by auto
next
  case (6 q g kvs)
  have "\<forall>r \<in> set (map (\<lambda>(k, v). case marshal q g v of Inl e \<Rightarrow> Inl e
                                   | Inr s \<Rightarrow> Inr (q k @ '':'' @ s))
                        (sort_key fst kvs)). \<exists>x. r = Inr x"
  proof
    fix r
    assume "r \<in> set (map (\<lambda>(k, v). case marshal q g v of Inl e \<Rightarrow> Inl e
                                   | Inr s \<Rightarrow> Inr (q k @ '':'' @ s))
                        (sort_key fst kvs))"
    then obtain k v where kv: "(k, v) \<in> set kvs"
      and r: "r = (case marshal q g v of Inl e \<Rightarrow> Inl e | Inr s \<Rightarrow> Inr (q k @ '':'' @ s))"
      by auto
    from kv "6.prems" have "decoded v" by auto
    with "6.IH" kv obtain enc where "marshal q g v = Inr enc" by fastforce
    with r show "\<exists>x. r = Inr x" by simp
  qed
  from collect_ok [OF this] show ?case by auto
qed simp_all

lemma marshal_bracketed: "\<not> is_leaf v \<Longrightarrow> marshal q g v = Inr enc \<Longrightarrow> bracketed enc"
  by (cases v) (auto simp: bracketed_def split: sum.splits)

lemma trim_runes_stop: "space_width tab s = 0 \<Longrightarrow> trim_runes tab s = s"
  by (subst trim_runes.simps) simp

lemma trim_runes_step:
  "space_width tab s = n \<Longrightarrow> 0 < n \<Longrightarrow> trim_runes tab s = trim_runes tab (drop n s)"
  by (subst trim_runes.simps) simp

lemma space_width_other_head:
  assumes "\<forall>p \<in> set tab. p \<noteq> [] \<and> hd p \<noteq> c"
  shows "space_width tab (c # cs) = 0"
proof -
  have "\<not> starts_with (c # cs) p" if "p \<in> set tab" for p
  proof -
    from that assms have "p \<noteq> []" "hd p \<noteq> c" by blast+
    then obtain q qs where "p = q # qs" "q \<noteq> c"
      by (cases p) auto
    then show ?thesis by (simp add: starts_with_def)
  qed
  then have "find (starts_with (c # cs)) tab = None"
    by (simp add: find_None_iff)
  then show ?thesis by (simp add: space_width_def)
qed

lemma space_runes_heads:
  "c = CHR ''n'' \<or> c = CHR ''['' \<or> c = CHR ''{'' \<or> c = CHR ''l'' \<or> c = CHR '']'' \<or> c = CHR ''}''
   \<Longrightarrow> (\<forall>p \<in> set space_runes. p \<noteq> [] \<and> hd p \<noteq> c) \<and>
       (\<forall>p \<in> set (map rev space_runes). p \<noteq> [] \<and> hd p \<noteq> c)"
  by (elim disjE) (simp_all add: space_runes_def)

lemma space_width_newline: "space_width (map rev space_runes) (NL # s) = 1"
  by (simp add: space_width_def space_runes_def starts_with_def)

lemma TrimSpace_bracketed:
  assumes "bracketed enc"
  shows "TrimSpace (enc @ [NL]) = enc"
proof -
  from assms obtain c cs d ds where front: "enc = c # cs" and rear: "rev enc = d # ds"
    and c: "c = CHR ''n'' \<or> c = CHR ''['' \<or> c = CHR ''{''"
    and d: "d = CHR ''l'' \<or> d = CHR '']'' \<or> d = CHR ''}''"
    by (auto simp: bracketed_def)
  have "space_width space_runes (c # cs @ [NL]) = 0"
    using c space_runes_heads [of c] by (intro space_width_other_head) blast
  then have left: "trim_runes space_runes (enc @ [NL]) = enc @ [NL]"
    by (simp add: front trim_runes_stop)
  have "trim_runes (map rev space_runes) (NL # rev enc) = trim_runes (map rev space_runes) (rev enc)"
    using trim_runes_step [OF space_width_newline, of "rev enc"] by simp
  moreover have "space_width (map rev space_runes) (d # ds) = 0"
    using d space_runes_heads [of d] by (intro space_width_other_head) blast
  ultimately have "trim_runes (map rev space_runes) (NL # rev enc) = rev enc"
    by (simp add: rear trim_runes_stop)
  then show ?thesis
    by (simp add: TrimSpace_def left)
qed

lemma val2str_decoded:
  assumes "decoded v" and "\<not> is_leaf v"
  shows "\<exists>enc. Marshal L v = Inr enc \<and> Encode L v = Inr (enc @ [NL]) \<and>
           TrimSpace (enc @ [NL]) = enc \<and> val2str L v = Inr enc"
proof -
  from assms(1) obtain enc where enc: "Marshal L v = Inr enc"
    using marshal_decoded unfolding Marshal_def by blast
  then have e: "Encode L v = Inr (enc @ [NL])"
    by (simp add: Encode_def)
  have t: "TrimSpace (enc @ [NL]) = enc"
    using assms(2) enc marshal_bracketed TrimSpace_bracketed unfolding Marshal_def by blast
  have "val2str L v = Inr enc"
    using assms(2) e t by (cases v) simp_all
  with enc e t show ?thesis by blast
qed

lemma val2str_flattenable: "flattenable v \<Longrightarrow> \<exists>s. val2str L v = Inr s"
proof (cases "is_leaf v")
  case True
  then show ?thesis by (cases v) simp_all
next
  case False
  moreover assume "flattenable v"
  ultimately have "decoded v" by (simp add: flattenable_def)
  with False show ?thesis
    using val2str_decoded [of v L] by blast
qed

lemma vals_loop_flattenable:
  assumes "set ks \<subseteq> fst ` set j" and "\<forall>v \<in> snd ` set j. flattenable v"
  shows "\<exists>vals. vals_loop L j ks acc = Inr (acc @ vals) \<and> length vals = length ks \<and>
           (\<forall>i < length ks. \<exists>v. map_of j (ks ! i) = Some v \<and> val2str L v = Inr (vals ! i))"
  using assms(1)
proof (induction ks arbitrary: acc)
  case Nil
  then show ?case by simp
next
  case (Cons k ks)
  from Cons.prems obtain v where v: "map_of j k = Some v" "v \<in> snd ` set j"
    using map_of_key_present [of k j] by auto
  with assms(2) obtain s where s: "val2str L v = Inr s"
    using val2str_flattenable by blast
  from Cons.prems have "set ks \<subseteq> fst ` set j" by simp
  from Cons.IH [OF this, of "acc @ [s]"] obtain vals where
    vals: "vals_loop L j ks (acc @ [s]) = Inr ((acc @ [s]) @ vals)" "length vals = length ks"
      "\<forall>i < length ks. \<exists>v. map_of j (ks ! i) = Some v \<and> val2str L v = Inr (vals ! i)"
    by blast
  have "vals_loop L j (k # ks) acc = Inr (acc @ (s # vals))"
    using v s vals(1) by simp
  moreover have "length (s # vals) = length (k # ks)"
    using vals(2) by simp
  moreover have "\<forall>i < length (k # ks).
      \<exists>v. map_of j ((k # ks) ! i) = Some v \<and> val2str L v = Inr ((s # vals) ! i)"
  proof (intro allI impI)
    fix i assume "i < length (k # ks)"
    then show "\<exists>v. map_of j ((k # ks) ! i) = Some v \<and> val2str L v = Inr ((s # vals) ! i)"
      using v(1) s vals(3) by (cases i) auto
  qed
  ultimately show ?case by blast
qed

lemma sort_example_keys:
  "sort [''b'', ''a''] = [''a'', ''b'']" "sort [''a'', ''b''] = [''a'', ''b'']"
  by code_simp+

lemma digitsN_6:
  "digitsN 6 n =
     [digit (n div 10 div 10 div 10 div 10 div 10 mod 10),
      digit (n div 10 div 10 div 10 div 10 mod 10),
      digit (n div 10 div 10 div 10 mod 10), digit (n div 10 div 10 mod 10),
      digit (n div 10 mod 10), digit (n mod 10)]"
proof -
  have "(6::nat) = Suc (Suc (Suc (Suc (Suc (Suc 0)))))" by simp
  then show ?thesis by (simp only: digitsN.simps append.simps)
qed

lemma digit_values:
  "digit 0 = CHR ''0''" "digit 1 = CHR ''1''" "digit 2 = CHR ''2''" "digit 3 = CHR ''3''"
  "digit 4 = CHR ''4''" "digit 5 = CHR ''5''" "digit 6 = CHR ''6''" "digit 7 = CHR ''7''"
  "digit 8 = CHR ''8''" "digit 9 = CHR ''9''" "digit (Suc 0) = CHR ''1''"
  by code_simp+

lemma digit_value: "d < 10 \<Longrightarrow> of_char (digit d) - 48 = d"
  by (simp add: digit_def)

lemma decimal_value_snoc: "decimal_value (s @ [c]) = 10 * decimal_value s + (of_char c - 48)"
  by (simp add: decimal_value_def)

lemma decimal_value_append:
  "decimal_value (s @ t) = decimal_value s * 10 ^ length t + decimal_value t"
proof (induction t rule: rev_induct)
  case Nil
  then show ?case by (simp add: decimal_value_def)
next
  case (snoc c t)
  have "decimal_value (s @ t @ [c]) = 10 * decimal_value (s @ t) + (of_char c - 48)"
    using decimal_value_snoc [of "s @ t" c] by simp
  with snoc show ?case
    by (simp add: decimal_value_snoc algebra_simps)
qed

lemma decimal_value_itoa: "decimal_value (itoa n) = n"
proof (induction n rule: itoa.induct)
  case (1 n)
  show ?case
  proof (cases "n < 10")
    case True
    then show ?thesis
      by (subst itoa.simps) (simp add: decimal_value_def digit_value)
  next
    case False
    with 1 have "decimal_value (itoa (n div 10)) = n div 10" by simp
    with False show ?thesis
      by (subst itoa.simps) (simp add: decimal_value_snoc digit_value)
  qed
qed

lemma decimal_value_digitsN: "decimal_value (digitsN k n) = n mod 10 ^ k"
proof (induction k arbitrary: n)
  case 0
  then show ?case by (simp add: decimal_value_def)
next
  case (Suc k)
  have "n mod (10 * 10 ^ k) = 10 * (n div 10 mod 10 ^ k) + n mod 10"
    by (simp add: mod_mult2_eq)
  with Suc show ?case
    by (simp add: decimal_value_snoc digit_value)
qed

lemma digit_nonzero: "0 < d \<Longrightarrow> d < 10 \<Longrightarrow> digit d \<noteq> CHR ''0''"
proof
  assume d: "0 < d" "d < 10" and "digit d = CHR ''0''"
  then have "of_char (digit d) - 48 = (of_char (CHR ''0'') :: nat) - 48" by simp
  with d show False by (simp add: digit_value)
qed

lemma itoa_no_leading_zero: "0 < n \<Longrightarrow> hd (itoa n) \<noteq> CHR ''0''"
proof (induction n rule: itoa.induct)
  case (1 n)
  show ?case
  proof (cases "n < 10")
    case True
    with "1.prems" show ?thesis
      by (subst itoa.simps) (simp add: digit_nonzero)
  next
    case False
    then have "0 < n div 10" by simp
    with 1 False have "hd (itoa (n div 10)) \<noteq> CHR ''0''" by simp
    moreover have "itoa (n div 10) \<noteq> []" using itoa_digits by blast
    ultimately show ?thesis
      using False by (subst itoa.simps) simp
  qed
qed

lemma itoa_canonical: "itoa n = ''0'' \<or> hd (itoa n) \<noteq> CHR ''0''"
proof (cases "n = 0")
  case True
  then show ?thesis by (simp add: itoa.simps digit_values)
next
  case False
  then show ?thesis using itoa_no_leading_zero by simp
qed

lemma roundHalfEven_nearest:
  assumes "0 < d"
  shows "\<bar>real (roundHalfEven n d) - real n / real d\<bar> \<le> 1 / 2 \<and>
         (\<bar>real (roundHalfEven n d) - real n / real d\<bar> = 1 / 2 \<longrightarrow> even (roundHalfEven n d))"
proof -
  define q r where "q = n div d" and "r = n mod d"
  define x where "x = real r / real d"
  have n: "n = q * d + r" and r: "r < d"
    using assms by (simp_all add: q_def r_def)
  have frac: "real n / real d = real q + x"
    using assms by (simp add: n x_def field_simps)
  have x0: "0 \<le> x" and x1: "x \<le> 1"
    using r assms by (simp_all add: x_def)
  have half: "x = 1 / 2 \<longleftrightarrow> 2 * r = d"
  proof -
    have "x = 1 / 2 \<longleftrightarrow> 2 * real r = real d"
      using assms by (auto simp: x_def field_simps)
    also have "\<dots> \<longleftrightarrow> real (2 * r) = real d" by simp
    also have "\<dots> \<longleftrightarrow> 2 * r = d" by (simp only: of_nat_eq_iff)
    finally show ?thesis .
  qed
  have more: "1 / 2 < x \<longleftrightarrow> d < 2 * r"
  proof -
    have "1 / 2 < x \<longleftrightarrow> real d < 2 * real r"
      using assms by (auto simp: x_def field_simps)
    also have "\<dots> \<longleftrightarrow> real d < real (2 * r)" by simp
    also have "\<dots> \<longleftrightarrow> d < 2 * r" by (simp only: of_nat_less_iff)
    finally show ?thesis .
  qed
  show ?thesis
  proof (cases "d < 2 * r \<or> (2 * r = d \<and> odd q)")
    case True
    then have v: "roundHalfEven n d = q + 1"
      by (simp add: roundHalfEven_def q_def r_def Let_def)
    have "real (q + 1) - real n / real d = 1 - x"
      by (simp add: frac)
    with x1 have a: "\<bar>real (q + 1) - real n / real d\<bar> = 1 - x"
      by simp
    from True more half have "1 / 2 \<le> x" by auto
    then have "1 - x \<le> 1 / 2" by simp
    moreover have "even (q + 1)" if "1 - x = 1 / 2"
    proof -
      from that have "x = 1 / 2" by simp
      with half have "2 * r = d" by simp
      with True show ?thesis by simp
    qed
    ultimately show ?thesis
      unfolding v a by blast
  next
    case False
    then have v: "roundHalfEven n d = q"
      by (simp add: roundHalfEven_def q_def r_def Let_def)
    have "real q - real n / real d = - x"
      by (simp add: frac)
    with x0 have a: "\<bar>real q - real n / real d\<bar> = x"
      by simp
    from False more have "x \<le> 1 / 2" by auto
    moreover have "even q" if "x = 1 / 2"
      using that half False by simp
    ultimately show ?thesis
      unfolding v a by blast
  qed
qed

lemma scaled6_nearest:
  "\<bar>real (scaled6 m e) - magnitude m e * 10 ^ 6\<bar> \<le> 1 / 2 \<and>
   (\<bar>real (scaled6 m e) - magnitude m e * 10 ^ 6\<bar> = 1 / 2 \<longrightarrow> even (scaled6 m e))"
proof (cases "0 \<le> e")
  case True
  then show ?thesis
    by (simp add: scaled6_def magnitude_def)
next
  case False
  have "(0::nat) < 2 ^ nat (- e)" by simp
  from roundHalfEven_nearest [OF this, of "m * 10 ^ 6"] False show ?thesis
    by (simp add: scaled6_def magnitude_def)
qed

lemma Sprintf_f_value:
  "\<exists>ip fr. Sprintf_f (Finite neg m e) = (if neg then ''-'' else '''') @ ip @ ''.'' @ fr \<and>
     ip \<noteq> [] \<and> list_all is_digit ip \<and> (ip = ''0'' \<or> hd ip \<noteq> CHR ''0'') \<and>
     length fr = 6 \<and> list_all is_digit fr \<and>
     \<bar>real (decimal_value (ip @ fr)) - magnitude m e * 10 ^ 6\<bar> \<le> 1 / 2 \<and>
     (\<bar>real (decimal_value (ip @ fr)) - magnitude m e * 10 ^ 6\<bar> = 1 / 2 \<longrightarrow>
        even (decimal_value (ip @ fr)))"
proof -
  define n where "n = scaled6 m e"
  define ip where "ip = itoa (n div 10 ^ 6)"
  define fr where "fr = digitsN 6 (n mod 10 ^ 6)"
  have s: "Sprintf_f (Finite neg m e) = (if neg then ''-'' else '''') @ ip @ ''.'' @ fr"
    by (simp add: n_def ip_def fr_def Let_def)
  have l: "length fr = 6" "list_all is_digit fr"
    using digitsN_digits [of 6 "n mod 10 ^ 6"] by (simp_all add: fr_def)
  have "decimal_value (ip @ fr) = n div 10 ^ 6 * 10 ^ 6 + n mod 10 ^ 6"
    by (simp add: decimal_value_append l(1)) (simp add: ip_def fr_def decimal_value_itoa decimal_value_digitsN)
  then have v: "decimal_value (ip @ fr) = n" by simp
  have i: "ip \<noteq> []" "list_all is_digit ip" "ip = ''0'' \<or> hd ip \<noteq> CHR ''0''"
    using itoa_digits [of "n div 10 ^ 6"] itoa_canonical [of "n div 10 ^ 6"]
    by (simp_all add: ip_def)
  have near: "\<bar>real (decimal_value (ip @ fr)) - magnitude m e * 10 ^ 6\<bar> \<le> 1 / 2"
    and tie: "\<bar>real (decimal_value (ip @ fr)) - magnitude m e * 10 ^ 6\<bar> = 1 / 2 \<longrightarrow>
        even (decimal_value (ip @ fr))"
    using scaled6_nearest [of m e] unfolding v n_def by blast+
  from s i l near tie show ?thesis by blast
qed

lemma Sprintf_f_example: "Sprintf_f (Finite False 3 (- 1)) = ''1.500000''"
  by (simp add: scaled6_def roundHalfEven_def itoa.simps digit_values digitsN_6)

lemma header_line_example: "csv_Write [''a'', ''b''] = (None, ''a,b'' @ [NL])"
  by (simp add: csv_Write_def writeField_def fieldNeedsQuotes_def space_runes_def starts_with_def)

lemma row_line_example:
  "csv_Write [''true'', ''1.500000''] = (None, ''true,1.500000'' @ [NL])"
  by (simp add: csv_Write_def writeField_def fieldNeedsQuotes_def space_runes_def starts_with_def)

lemma example_keys:
  "j = example_object \<or> j = rev example_object \<Longrightarrow> MapToHeaderStrsSorted j = Inr [''a'', ''b'']"
  by (auto simp: MapToHeaderStrsSorted_def example_object_def sort_example_keys)

lemma example_vals:
  "j = example_object \<or> j = rev example_object
   \<Longrightarrow> MapToValueStrsSorted L j = Inr [''true'', ''1.500000'']"
  using example_keys [of j]
  by (auto simp: MapToValueStrsSorted_def example_object_def Sprintf_f_example FormatBool_def
           simp del: Sprintf_f.simps)

lemma j2c_example:
  assumes "Unmarshal L raw = Inr j" and "j = example_object \<or> j = rev example_object"
  shows "j2c L raw = (\<lparr>HeaderLine = ''a,b'' @ [NL], Row1st = ''true,1.500000'' @ [NL]\<rparr>, None)"
  using assms(1) example_keys [OF assms(2)] example_vals [OF assms(2), of L]
  by (simp add: j2c_def ToJsonToCsvRaw_def ToMapToHeaderLine_def ToMapToRow1st_def
        header_line_example row_line_example errors_Join_def err_of_def bytes_of_def
        List.map_filter_def)

lemma j2c_example_lib:
  "j2c example_lib example_raw =
     (\<lparr>HeaderLine = ''a,b'' @ [NL], Row1st = ''true,1.500000'' @ [NL]\<rparr>, None)"
  by (rule j2c_example [of _ _ example_object]) (simp_all add: example_lib_def)

lemma ToSchema_example_lib:
  "ToSchema example_lib (''a,b'' @ [NL] @ ''true,1.500000'' @ [NL]) opts = Inr example_schema"
  by (simp add: ToSchema_def ToReader_def Reader_ToSchema_def Reader_Next_def Reader_Release_def
        example_lib_def)

lemma run_example_lib:
  "run example_lib example_stdin w False [] = Write w (''schema:'' @ [NL])"
  using ToSchema_example_lib [of "[]"]
  by (simp add: run_def example_stdin_def j2c_example_lib) (simp add: example_lib_def)

lemma parseFlags_example_lib:
  "Args c = [] \<Longrightarrow> parseFlags example_lib c = Inr (False, [], [], [], [])"
  by (simp add: parseFlags_def example_lib_def no_flags_def)

lemma field_entry_spec: "field_entry f = spec_field f"
  by (simp add: field_entry_def spec_field_def spec_type_name_def split: DataType.splits)

lemma fields_loop_enumerate:
  "n + length fs \<le> length out \<Longrightarrow>
   fields_loop (enumerate n fs) out = take n out @ map field_entry fs @ drop (n + length fs) out"
proof (induction fs arbitrary: n out)
  case Nil
  then show ?case by simp
next
  case (Cons f fs)
  then have n: "n < length out" by simp
  have "fields_loop (enumerate n (f # fs)) out =
          fields_loop (enumerate (Suc n) fs) (out[n := field_entry f])"
    by simp
  also have "\<dots> = take (Suc n) (out[n := field_entry f]) @ map field_entry fs @
                   drop (Suc n + length fs) (out[n := field_entry f])"
    using Cons.prems by (intro Cons.IH) simp
  also have "take (Suc n) (out[n := field_entry f]) = take n out @ [field_entry f]"
    using n by (simp add: take_Suc_conv_app_nth)
  also have "drop (Suc n + length fs) (out[n := field_entry f]) = drop (Suc n + length fs) out"
    by simp
  finally show ?case by simp
qed

lemma toSerializableSchema_map: "Fields (toSerializableSchema schema) = map spec_field schema"
  using fields_loop_enumerate
    [of 0 schema "replicate (length schema) \<lparr>Name = [], Type = [], Nullable = False\<rparr>"]
  by (simp add: toSerializableSchema_def field_entry_spec [abs_def])

lemma indent_field: "indent_doc q ''  '' (Suc (Suc 0)) (doc_of_field f) = spec_element q f"
  by (simp add: doc_of_field_def spec_element_def newline_def)

lemma indent_schema: "indent_doc q ''  '' 0 (doc_of_schema s) = spec_document q (Fields s)"
  by (simp add: doc_of_schema_def spec_document_def newline_def indent_field comp_def)

lemma pairs_loop_malformed:
  "list_ex malformed pairs \<Longrightarrow>
   \<exists>pair. pair \<in> set pairs \<and> malformed pair \<and> pairs_loop pairs ct = Inl (ErrInvalidTypeMapping pair)"
proof (induction pairs arbitrary: ct)
  case Nil
  then show ?case by simp
next
  case (Cons p ps)
  show ?case
  proof (cases "malformed p")
    case True
    then have "pairs_loop (p # ps) ct = Inl (ErrInvalidTypeMapping p)"
      by (simp add: malformed_def expectedTypeMappingParts_def)
    with True show ?thesis by auto
  next
    case False
    with Cons.prems have "list_ex malformed ps" by simp
    from Cons.IH [OF this] obtain pair where
      "pair \<in> set ps" "malformed pair"
      "pairs_loop ps (AList.update (Split p (CHR '':'') ! 0)
                        (typeFromString (Split p (CHR '':'') ! 1)) ct)
         = Inl (ErrInvalidTypeMapping pair)"
      by blast
    with False show ?thesis
      by (auto simp: malformed_def expectedTypeMappingParts_def Let_def)
  qed
qed

lemma same_map_keys: "same_map j1 j2 \<Longrightarrow> MapToHeaderStrsSorted j1 = MapToHeaderStrsSorted j2"
proof -
  assume s: "same_map j1 j2"
  then have "set (map fst j1) = set (map fst j2)"
    by (simp add: same_map_def)
  moreover from s have "distinct (map fst j1)" "distinct (map fst j2)"
    by (simp_all add: same_map_def)
  ultimately have "sort (map fst j1) = sort (map fst j2)"
    by (intro sorted_distinct_set_unique) simp_all
  then show ?thesis by (simp add: MapToHeaderStrsSorted_def)
qed

lemma same_map_lookup: "same_map j1 j2 \<Longrightarrow> map_of j1 = map_of j2"
  by (simp add: same_map_def map_of_inject_set)

lemma vals_loop_lookup:
  "map_of j1 = map_of j2 \<Longrightarrow> vals_loop L j1 ks acc = vals_loop L j2 ks acc"
  by (induction ks arbitrary: acc) (simp_all split: option.splits sum.splits)

lemma same_map_vals: "same_map j1 j2 \<Longrightarrow> MapToValueStrsSorted L j1 = MapToValueStrsSorted L j2"
  using same_map_keys [of j1 j2] same_map_lookup [of j1 j2] vals_loop_lookup [of j1 j2 L]
  by (simp add: MapToValueStrsSorted_def split: sum.splits)

lemma val2str_Unmarshal: "val2str (L\<lparr>Unmarshal := u\<rparr>) v = val2str L v"
  by (cases v) (simp_all add: Encode_def Marshal_def del: marshal.simps)

lemma vals_loop_Unmarshal: "vals_loop (L\<lparr>Unmarshal := u\<rparr>) j ks acc = vals_loop L j ks acc"
  by (induction ks arbitrary: acc) (simp_all add: val2str_Unmarshal split: option.splits sum.splits)

lemma MapToValueStrsSorted_Unmarshal:
  "MapToValueStrsSorted (L\<lparr>Unmarshal := u\<rparr>) = MapToValueStrsSorted L"
  by (rule ext) (simp add: MapToValueStrsSorted_def vals_loop_Unmarshal cong: sum.case_cong)

lemma j2c_same_decoding:
  assumes "same_decoding (Unmarshal L raw) (u raw)"
  shows "j2c (L\<lparr>Unmarshal := u\<rparr>) raw = j2c L raw"
proof (cases "Unmarshal L raw")
  case (Inl e)
  with assms show ?thesis
    by (simp add: same_decoding_def j2c_def ToJsonToCsvRaw_def)
next
  case (Inr j1)
  with assms obtain j2 where j2: "u raw = Inr j2" "same_map j1 j2"
    by (auto simp: same_decoding_def split: sum.splits)
  then have "MapToHeaderStrsSorted j2 = MapToHeaderStrsSorted j1"
    "MapToValueStrsSorted L j2 = MapToValueStrsSorted L j1"
    using same_map_keys [of j1 j2] same_map_vals [of j1 j2 L] by simp_all
  with Inr j2(1) show ?thesis
    by (simp add: j2c_def ToJsonToCsvRaw_def ToMapToHeaderLine_def ToMapToRow1st_def
          MapToValueStrsSorted_Unmarshal)
qed

lemma run_same_decoding:
  assumes "\<forall>raw. same_decoding (Unmarshal L raw) (u raw)"
  shows "run (L\<lparr>Unmarshal := u\<rparr>) r w pretty opts = run L r w pretty opts"
proof -
  have "j2c (L\<lparr>Unmarshal := u\<rparr>) raw = j2c L raw" for raw
    using assms j2c_same_decoding by blast
  then show ?thesis
    by (simp add: run_def ToSchema_def ToReader_def MarshalIndent_def
          cong: sum.case_cong prod.case_cong option.case_cong if_cong)
qed

lemma cli_run_same_decoding:
  assumes "\<forall>raw. same_decoding (Unmarshal L raw) (u raw)"
  shows "cli_run (L\<lparr>Unmarshal := u\<rparr>) c = cli_run L c"
  by (simp add: cli_run_def parseFlags_def openInput_def openOutput_def
        run_same_decoding [OF assms]
        cong: sum.case_cong prod.case_cong option.case_cong if_cong)

lemma exit_code_fixed_before_close:
  assumes "parseFlags L c = Inr (pretty, inc, cts, inF, outF)"
    and "openInput L c inF = (None, c1)" and "openOutput L c1 outF = (None, c2)"
    and "run L (Input c2) (Output c2) pretty (createOptions inc cts) = (None, w)"
  shows "fst (cli_run L c) = ExitCode c"
proof -
  have "ExitCode c1 = ExitCode c"
    using assms(2) by (auto simp: openInput_def split: if_splits sum.splits)
  moreover have "ExitCode c2 = ExitCode c1"
    using assms(3) by (auto simp: openOutput_def split: if_splits sum.splits)
  ultimately show ?thesis
    using assms by (simp add: cli_run_def)
qed

section \<open>The flattener\<close>

text \<open>
  C1. For a JSON object whose values are strings, numbers and booleans (or decoded
  structures over them), the keys come out
  strictly ascending in the byte order of strings (so sorted and without repetition), they
  are the keys of the object, and the value sequence has the same length and holds at each
  position the text of the value stored under the key at that position.
\<close>

theorem flatten_sorted_aligned:
  assumes "distinct (map fst j)" and "\<forall>v \<in> snd ` set j. flattenable v"
  shows "\<exists>keys vals.
           MapToHeaderStrsSorted j = Inr keys \<and> MapToValueStrsSorted L j = Inr vals \<and>
           sorted_wrt (<) keys \<and> set keys = fst ` set j \<and>
           length vals = length keys \<and>
           (\<forall>i < length keys. \<exists>v. map_of j (keys ! i) = Some v \<and> val2str L v = Inr (vals ! i))"
proof -
  let ?keys = "sort (map fst j)"
  have k: "MapToHeaderStrsSorted j = Inr ?keys"
    by (simp add: MapToHeaderStrsSorted_def)
  have "sorted ?keys" and "distinct ?keys"
    using assms(1) by simp_all
  then have strict: "sorted_wrt (<) ?keys"
    by (simp add: strict_sorted_iff)
  have dom: "set ?keys = fst ` set j" by simp
  then have "set ?keys \<subseteq> fst ` set j" by simp
  from vals_loop_flattenable [OF this assms(2), of L "[]"] obtain vals where
    vals: "vals_loop L j ?keys [] = Inr vals" "length vals = length ?keys"
      "\<forall>i < length ?keys. \<exists>v. map_of j (?keys ! i) = Some v \<and> val2str L v = Inr (vals ! i)"
    by auto
  have "MapToValueStrsSorted L j = Inr vals"
    using vals(1) by (simp add: MapToValueStrsSorted_def MapToHeaderStrsSorted_def)
  with k strict dom vals(2,3) show ?thesis by blast
qed

theorem flatten_sorted_aligned_witness:
  "distinct (map fst example_object) \<and> list_all flattenable (map snd example_object) \<and>
   MapToHeaderStrsSorted example_object = Inr [''a'', ''b''] \<and>
   MapToValueStrsSorted example_lib example_object = Inr [''true'', ''1.500000''] \<and>
   sorted_wrt (<) [''a'', ''b''] \<and> length [''true'', ''1.500000''] = length [''a'', ''b'']"
proof -
  have d: "distinct (map fst example_object)"
    by (simp add: example_object_def)
  have l: "\<forall>v \<in> snd ` set example_object. flattenable v"
    by (simp add: example_object_def flattenable_def)
  from flatten_sorted_aligned [OF d l, of example_lib] obtain keys vals where
    kv: "MapToHeaderStrsSorted example_object = Inr keys"
      "MapToValueStrsSorted example_lib example_object = Inr vals"
      "sorted_wrt (<) keys" "length vals = length keys"
    by blast
  have "keys = [''a'', ''b'']" "vals = [''true'', ''1.500000'']"
    using kv(1,2) example_keys [of example_object] example_vals [of example_object example_lib]
    by simp_all
  with kv d l show ?thesis
    by (simp add: list_all_iff)
qed

text \<open>
  C8. Every key of the sorted key list is present in the map when it is looked up, and
  \<open>MapToValueStrsSorted\<close> never returns the key-not-found error.
\<close>

theorem key_always_found:
  "(\<forall>keys k. MapToHeaderStrsSorted j = Inr keys \<and> k \<in> set keys \<longrightarrow> map_of j k \<noteq> None) \<and>
   (\<forall>k. MapToValueStrsSorted L j \<noteq> Inl (ErrKeyNotFound k))"
proof (intro conjI allI impI)
  fix keys k
  assume "MapToHeaderStrsSorted j = Inr keys \<and> k \<in> set keys"
  then have "k \<in> fst ` set j"
    by (auto simp: MapToHeaderStrsSorted_def)
  then show "map_of j k \<noteq> None"
    using map_of_key_present [of k j] by auto
next
  fix k
  show "MapToValueStrsSorted L j \<noteq> Inl (ErrKeyNotFound k)"
  proof
    assume "MapToValueStrsSorted L j = Inl (ErrKeyNotFound k)"
    then have "vals_loop L j (sort (map fst j)) [] = Inl (ErrKeyNotFound k)"
      by (simp add: MapToValueStrsSorted_def MapToHeaderStrsSorted_def)
    moreover have "set (sort (map fst j)) \<subseteq> fst ` set j" by simp
    ultimately show False
      using vals_loop_error by blast
  qed
qed

theorem key_always_found_witness:
  "MapToHeaderStrsSorted example_object = Inr [''a'', ''b''] \<and> ''b'' \<in> set [''a'', ''b''] \<and>
   map_of example_object ''b'' \<noteq> None \<and>
   MapToValueStrsSorted example_lib example_object \<noteq> Inl (ErrKeyNotFound ''b'')"
proof -
  have k: "MapToHeaderStrsSorted example_object = Inr [''a'', ''b'']"
    by (simp add: example_keys)
  moreover have m: "''b'' \<in> set [''a'', ''b'']" by simp
  ultimately show ?thesis
    using key_always_found [of example_object example_lib] by blast
qed

section \<open>The value stringifier\<close>

text \<open>
  C2. \<open>val2str\<close> returns a string as it is; \<open>true\<close> or \<open>false\<close> for a boolean; for a
  finite number a minus sign exactly when the sign bit is set, then at least one digit
  with no superfluous leading zero, a point and exactly six digits, with nothing else (so
  no exponent, and zeros are kept), where the digits, read as one decimal integer, are the
  integer nearest to the absolute value of the number times \<open>10^6\<close>, the even one on a
  tie: the text is the number in fixed point, rounded at the sixth place; and for a
  decoded value of any other shape (object, array, null) its compact JSON encoding, which is what is left
  of the encoder's output once the surrounding white space is trimmed.
\<close>

theorem val2str_by_shape:
  "val2str L (JString s) = Inr s \<and>
   val2str L (JBool b) = Inr (if b then ''true'' else ''false'') \<and>
   (\<exists>ip fr. val2str L (JNumber (Finite neg m e)) =
               Inr ((if neg then ''-'' else '''') @ ip @ ''.'' @ fr) \<and>
      ip \<noteq> [] \<and> list_all is_digit ip \<and> (ip = ''0'' \<or> hd ip \<noteq> CHR ''0'') \<and>
      length fr = 6 \<and> list_all is_digit fr \<and>
      \<bar>real (decimal_value (ip @ fr)) - magnitude m e * 10 ^ 6\<bar> \<le> 1 / 2 \<and>
      (\<bar>real (decimal_value (ip @ fr)) - magnitude m e * 10 ^ 6\<bar> = 1 / 2 \<longrightarrow>
         even (decimal_value (ip @ fr)))) \<and>
   (decoded v \<and> \<not> is_leaf v \<longrightarrow>
      (\<exists>enc. Marshal L v = Inr enc \<and> Encode L v = Inr (enc @ [NL]) \<and>
         TrimSpace (enc @ [NL]) = enc \<and> val2str L v = Inr enc))"
proof (intro conjI impI)
  show "val2str L (JString s) = Inr s" by simp
  show "val2str L (JBool b) = Inr (if b then ''true'' else ''false'')"
    by (simp add: FormatBool_def)
  show "\<exists>ip fr. val2str L (JNumber (Finite neg m e)) =
                  Inr ((if neg then ''-'' else '''') @ ip @ ''.'' @ fr) \<and>
      ip \<noteq> [] \<and> list_all is_digit ip \<and> (ip = ''0'' \<or> hd ip \<noteq> CHR ''0'') \<and>
      length fr = 6 \<and> list_all is_digit fr \<and>
      \<bar>real (decimal_value (ip @ fr)) - magnitude m e * 10 ^ 6\<bar> \<le> 1 / 2 \<and>
      (\<bar>real (decimal_value (ip @ fr)) - magnitude m e * 10 ^ 6\<bar> = 1 / 2 \<longrightarrow>
         even (decimal_value (ip @ fr)))"
    using Sprintf_f_value [of neg m e] by (simp del: Sprintf_f.simps)
next
  assume "decoded v \<and> \<not> is_leaf v"
  then show "\<exists>enc. Marshal L v = Inr enc \<and> Encode L v = Inr (enc @ [NL]) \<and>
         TrimSpace (enc @ [NL]) = enc \<and> val2str L v = Inr enc"
    using val2str_decoded [of v L] by blast
qed

theorem val2str_by_shape_witness:
  "decoded (JArray [JBool True, JNull]) \<and> \<not> is_leaf (JArray [JBool True, JNull]) \<and>
   val2str example_lib (JArray [JBool True, JNull]) = Inr ''[true,null]'' \<and>
   val2str example_lib (JNumber (Finite False 3 (- 1))) = Inr ''1.500000'' \<and>
   decimal_value ''1500000'' = 1500000 \<and> magnitude 3 (- 1) * 10 ^ 6 = 1500000"
proof -
  have h: "decoded (JArray [JBool True, JNull]) \<and> \<not> is_leaf (JArray [JBool True, JNull])"
    by simp
  have m: "Marshal example_lib (JArray [JBool True, JNull]) = Inr ''[true,null]''"
    by (simp add: Marshal_def)
  from val2str_by_shape [of example_lib _ _ _ _ _ "JArray [JBool True, JNull]"] h m
  have "val2str example_lib (JArray [JBool True, JNull]) = Inr ''[true,null]''"
    by auto
  moreover have "decimal_value ''1500000'' = 1500000"
    by (simp add: decimal_value_def)
  moreover have "magnitude 3 (- 1) * 10 ^ 6 = 1500000"
    by (simp add: magnitude_def)
  ultimately show ?thesis
    using h by (simp add: Sprintf_f_example del: Sprintf_f.simps)
qed

section \<open>The example of the specification\<close>

text \<open>
  C3. When the input decodes to the object \<open>{"b": 1.5, "a": true}\<close>, in either order of
  iteration, the header line is the bytes \<open>a,b\<close> and a newline and the first row is the
  bytes \<open>true,1.500000\<close> and a newline, and there is no error.
\<close>

theorem example_csv_fragment:
  assumes "Unmarshal L raw = Inr j" and "j = example_object \<or> j = rev example_object"
  shows "j2c L raw = (\<lparr>HeaderLine = ''a,b'' @ [NL], Row1st = ''true,1.500000'' @ [NL]\<rparr>, None) \<and>
         HeaderLine (fst (j2c L raw)) @ Row1st (fst (j2c L raw)) =
           ''a,b'' @ [NL] @ ''true,1.500000'' @ [NL]"
  using j2c_example [OF assms] by simp

theorem example_csv_fragment_witness:
  "Unmarshal example_lib example_raw = Inr example_object \<and>
   j2c example_lib example_raw =
     (\<lparr>HeaderLine = ''a,b'' @ [NL], Row1st = ''true,1.500000'' @ [NL]\<rparr>, None)"
proof -
  have u: "Unmarshal example_lib example_raw = Inr example_object"
    by (simp add: example_lib_def)
  from example_csv_fragment [OF u] u show ?thesis
    by simp
qed

section \<open>The pretty form\<close>

text \<open>
  C4. The serializable schema has one element for every field of the inferred schema, in
  the order of the schema, with the field's name and nullability and the type name
  \<open>float64\<close>, \<open>utf8\<close>, \<open>bool\<close> or the collaborator's own; the indented encoding of it
  is the document with the single array \<open>fields\<close>, indented by two spaces for every
  level; and that document is what the pipeline writes when the pretty flag is set.
\<close>

theorem pretty_schema_document:
  "Fields (toSerializableSchema schema) = map spec_field schema \<and>
   length (Fields (toSerializableSchema schema)) = length schema \<and>
   MarshalIndent L (toSerializableSchema schema) ''  '' =
     Inr (spec_document (appendString L) (map spec_field schema)) \<and>
   (rc_data r = Inr raw \<and> j2c L raw = (csv, None) \<and>
    ToSchema L (HeaderLine csv @ Row1st csv) opts = Inr schema \<longrightarrow>
      run L r w True opts = Write w (spec_document (appendString L) (map spec_field schema)))"
proof -
  have f: "Fields (toSerializableSchema schema) = map spec_field schema"
    by (rule toSerializableSchema_map)
  have m: "MarshalIndent L (toSerializableSchema schema) ''  '' =
     Inr (spec_document (appendString L) (map spec_field schema))"
    by (simp add: MarshalIndent_def indent_schema f)
  show ?thesis
    using f m by (auto simp: run_def)
qed

theorem pretty_schema_document_witness:
  "rc_data example_stdin = Inr example_raw \<and>
   j2c example_lib example_raw =
     (\<lparr>HeaderLine = ''a,b'' @ [NL], Row1st = ''true,1.500000'' @ [NL]\<rparr>, None) \<and>
   ToSchema example_lib (''a,b'' @ [NL] @ ''true,1.500000'' @ [NL]) [] = Inr example_schema \<and>
   Fields (toSerializableSchema example_schema) =
     [\<lparr>Name = ''a'', Type = ''bool'', Nullable = True\<rparr>,
      \<lparr>Name = ''b'', Type = ''float64'', Nullable = True\<rparr>] \<and>
   run example_lib example_stdin example_stdout True [] =
     Write example_stdout (spec_document (appendString example_lib) (map spec_field example_schema))"
proof -
  have a: "rc_data example_stdin = Inr example_raw"
    by (simp add: example_stdin_def)
  note b = j2c_example_lib
  have c: "ToSchema example_lib
             (HeaderLine \<lparr>HeaderLine = ''a,b'' @ [NL], Row1st = ''true,1.500000'' @ [NL]\<rparr> @
              Row1st \<lparr>HeaderLine = ''a,b'' @ [NL], Row1st = ''true,1.500000'' @ [NL]\<rparr>) [] =
           Inr example_schema"
    using ToSchema_example_lib [of "[]"] by simp
  from pretty_schema_document [of example_schema example_lib example_stdin example_raw
      "\<lparr>HeaderLine = ''a,b'' @ [NL], Row1st = ''true,1.500000'' @ [NL]\<rparr>" "[]" example_stdout]
    a b c
  have "Fields (toSerializableSchema example_schema) = map spec_field example_schema"
    and "run example_lib example_stdin example_stdout True [] =
     Write example_stdout (spec_document (appendString example_lib) (map spec_field example_schema))"
    by blast+
  moreover have "map spec_field example_schema =
     [\<lparr>Name = ''a'', Type = ''bool'', Nullable = True\<rparr>,
      \<lparr>Name = ''b'', Type = ''float64'', Nullable = True\<rparr>]"
    by (simp add: example_schema_def spec_field_def spec_type_name_def)
  ultimately show ?thesis
    using a b ToSchema_example_lib [of "[]"] by simp
qed

section \<open>The command line\<close>

text \<open>
  C5. When the flags parse and the value of \<open>-types\<close> is not empty and has a token that
  does not split at colons into exactly two parts, \<open>parseFlags\<close> fails with the
  invalid-type-mapping error for the first such token, the run returns 1, no file has been
  opened or created, the input is untouched, and the only thing written is the line of
  the error (so no part of a schema).
\<close>

theorem malformed_types_fail_fast:
  assumes "flag_Parse L (Args cliApp) = Inr fl" and "flag_types fl \<noteq> []"
    and "list_ex malformed (Split (flag_types fl) (CHR '',''))"
  shows "\<exists>pair. pair \<in> set (Split (flag_types fl) (CHR '','')) \<and> malformed pair \<and>
           parseFlags L cliApp = Inl (ErrInvalidTypeMapping pair) \<and>
           cli_run L cliApp =
             (1, cliApp\<lparr>Output := snd (Write (Output cliApp)
                                          (''invalid type mapping: '' @ pair @ [NL]))\<rparr>) \<and>
           opened (snd (cli_run L cliApp)) = opened cliApp \<and>
           Input (snd (cli_run L cliApp)) = Input cliApp"
proof -
  from pairs_loop_malformed [OF assms(3), of "[]"] obtain pair where
    p: "pair \<in> set (Split (flag_types fl) (CHR '',''))" "malformed pair"
       "pairs_loop (Split (flag_types fl) (CHR '','')) [] = Inl (ErrInvalidTypeMapping pair)"
    by blast
  have pf: "parseFlags L cliApp = Inl (ErrInvalidTypeMapping pair)"
    using assms(1,2) p(3) by (simp add: parseFlags_def)
  then have "cli_run L cliApp =
             (1, cliApp\<lparr>Output := snd (Write (Output cliApp)
                                          (''invalid type mapping: '' @ pair @ [NL]))\<rparr>)"
    by (simp add: cli_run_def Fprint_def)
  with p pf show ?thesis by auto
qed

theorem malformed_types_fail_fast_witness:
  "flag_Parse example_lib (Args bad_types_cli) = Inr (no_flags\<lparr>flag_types := ''badtoken''\<rparr>) \<and>
   flag_types (no_flags\<lparr>flag_types := ''badtoken''\<rparr>) \<noteq> [] \<and>
   list_ex malformed (Split (flag_types (no_flags\<lparr>flag_types := ''badtoken''\<rparr>)) (CHR '','')) \<and>
   fst (cli_run example_lib bad_types_cli) = 1 \<and>
   opened (snd (cli_run example_lib bad_types_cli)) = []"
proof -
  have a: "flag_Parse example_lib (Args bad_types_cli) = Inr (no_flags\<lparr>flag_types := ''badtoken''\<rparr>)"
    by (simp add: example_lib_def bad_types_cli_def)
  have b: "flag_types (no_flags\<lparr>flag_types := ''badtoken''\<rparr>) \<noteq> []"
    by simp
  have c: "list_ex malformed (Split (flag_types (no_flags\<lparr>flag_types := ''badtoken''\<rparr>)) (CHR '',''))"
    by (simp add: malformed_def)
  from malformed_types_fail_fast [OF a b c] a b c show ?thesis
    by (auto simp: bad_types_cli_def)
qed

section \<open>Type tokens\<close>

text \<open>
  C6. The token of a type override maps to the string type for \<open>string\<close>, to the 64-bit
  float type for \<open>float64\<close>, to the boolean type for \<open>bool\<close>, and to the string type
  for every other token.
\<close>

theorem typeFromString_cases:
  "typeFromString ''string'' = StringType \<and>
   typeFromString ''float64'' = Float64Type \<and>
   typeFromString ''bool'' = BooleanType \<and>
   (\<forall>s. s \<noteq> ''string'' \<and> s \<noteq> ''float64'' \<and> s \<noteq> ''bool'' \<longrightarrow> typeFromString s = StringType)"
  by (simp add: typeFromString_def)

theorem typeFromString_cases_witness:
  "''int64'' \<noteq> ''string'' \<and> ''int64'' \<noteq> ''float64'' \<and> ''int64'' \<noteq> ''bool'' \<and>
   typeFromString ''int64'' = StringType"
  using typeFromString_cases by simp

section \<open>The exit code\<close>

text \<open>
  C7. On the standard input holding the example object, with no arguments and a standard
  output whose \<open>Close\<close> fails, the conversion succeeds and the schema is written, the
  deferred function sets the field \<open>ExitCode\<close> to 1, and yet \<open>cli.run\<close> returns 0,
  the value the field had when the \<open>return\<close> statement was evaluated; the process exits
  with 0.
\<close>

theorem close_failure_exit_code:
  "main_exit example_lib example_stdin failing_close_stdout [] = 0 \<and>
   fst (cli_run example_lib failing_close_cli) = 0 \<and>
   ExitCode (snd (cli_run example_lib failing_close_cli)) = 1 \<and>
   wc_buf (Output (snd (cli_run example_lib failing_close_cli))) = ''schema:'' @ [NL]"
proof -
  have r: "run example_lib example_stdin failing_close_stdout False [] =
             (None, failing_close_stdout\<lparr>wc_buf := ''schema:'' @ [NL]\<rparr>)"
    by (simp add: run_example_lib Write_def failing_close_stdout_def)
  have i: "rc_close example_stdin = None"
    by (simp add: example_stdin_def)
  have o: "wc_close failing_close_stdout = Some (ExternalError ''input/output error'')"
    by (simp add: failing_close_stdout_def)
  have "cli_run example_lib failing_close_cli =
          (0, close_input (close_output
                (failing_close_cli\<lparr>Output := failing_close_stdout\<lparr>wc_buf := ''schema:'' @ [NL]\<rparr>\<rparr>)))"
    by (simp add: failing_close_cli_def cli_run_def parseFlags_example_lib openInput_def
          openOutput_def createOptions_def r)
  then show ?thesis
    by (simp add: main_exit_def failing_close_cli_def close_input_def close_output_def
          Fprint_def Write_def i o)
qed

section \<open>Schema of the first record batch\<close>

text \<open>
  C9. \<open>ToSchema\<close> returns the schema of the first record batch when the reader has one
  to produce, and the error \<open>no csv record batch got\<close> exactly when it has none; the
  reader is released either way.
\<close>

theorem ToSchema_first_batch:
  "(\<forall>b bs. pending rdr = b # bs \<longrightarrow> fst (Reader_ToSchema rdr) = Inr (batch_Schema b)) \<and>
   (fst (Reader_ToSchema rdr) = Inl ErrNoCsvRecordBatchGot \<longleftrightarrow> pending rdr = []) \<and>
   released (snd (Reader_ToSchema rdr)) \<and>
   ToSchema L c opts = fst (Reader_ToSchema (NewInferringReader L c (WithHeader True # opts)))"
  by (auto simp: Reader_ToSchema_def Reader_Next_def Reader_Release_def ToSchema_def ToReader_def
           split: list.splits)

theorem ToSchema_first_batch_witness:
  "pending (NewInferringReader example_lib (''a,b'' @ [NL] @ ''true,1.500000'' @ [NL]) [WithHeader True])
     = [\<lparr>batch_Schema = example_schema\<rparr>] \<and>
   ToSchema example_lib (''a,b'' @ [NL] @ ''true,1.500000'' @ [NL]) [] = Inr example_schema \<and>
   pending (NewInferringReader example_lib [] [WithHeader True]) = [] \<and>
   ToSchema example_lib [] [] = Inl ErrNoCsvRecordBatchGot"
proof -
  have a: "pending (NewInferringReader example_lib (''a,b'' @ [NL] @ ''true,1.500000'' @ [NL])
                      [WithHeader True])
     = [\<lparr>batch_Schema = example_schema\<rparr>]"
    by (simp add: example_lib_def)
  have b: "pending (NewInferringReader example_lib [] [WithHeader True]) = []"
    by (simp add: example_lib_def)
  from ToSchema_first_batch
    [of "NewInferringReader example_lib (''a,b'' @ [NL] @ ''true,1.500000'' @ [NL]) [WithHeader True]"
        example_lib "''a,b'' @ [NL] @ ''true,1.500000'' @ [NL]" "[]"] a
  have "ToSchema example_lib (''a,b'' @ [NL] @ ''true,1.500000'' @ [NL]) [] = Inr example_schema"
    by simp
  moreover from ToSchema_first_batch [of "NewInferringReader example_lib [] [WithHeader True]"
        example_lib "[]" "[]"] b
  have "ToSchema example_lib [] [] = Inl ErrNoCsvRecordBatchGot"
    by simp
  ultimately show ?thesis using a b by simp
qed

section \<open>Independence of the order of iteration\<close>

text \<open>
  C10. Let two decoders agree on every input up to the order in which the decoded map is
  iterated. Then the sorted keys and the value texts of two lists that stand for the same
  map are equal, and the CSV fragment, the result of the pipeline with the bytes it
  writes, and the result of the whole run with its exit code and final state are the same
  under both decoders.
\<close>

theorem iteration_order_irrelevant:
  assumes "\<forall>raw. same_decoding (Unmarshal L raw) (u raw)"
  shows "(\<forall>j1 j2. same_map j1 j2 \<longrightarrow>
            MapToHeaderStrsSorted j1 = MapToHeaderStrsSorted j2 \<and>
            MapToValueStrsSorted L j1 = MapToValueStrsSorted L j2) \<and>
         j2c (L\<lparr>Unmarshal := u\<rparr>) raw = j2c L raw \<and>
         run (L\<lparr>Unmarshal := u\<rparr>) r w pretty opts = run L r w pretty opts \<and>
         cli_run (L\<lparr>Unmarshal := u\<rparr>) c = cli_run L c"
  using assms same_map_keys same_map_vals j2c_same_decoding run_same_decoding
    cli_run_same_decoding
  by blast

theorem iteration_order_irrelevant_witness:
  "(\<forall>raw. same_decoding (Unmarshal example_lib raw) (reversed_decoder raw)) \<and>
   j2c (example_lib\<lparr>Unmarshal := reversed_decoder\<rparr>) example_raw = j2c example_lib example_raw \<and>
   cli_run (example_lib\<lparr>Unmarshal := reversed_decoder\<rparr>) example_cli =
     cli_run example_lib example_cli"
proof -
  have h: "\<forall>raw. same_decoding (Unmarshal example_lib raw) (reversed_decoder raw)"
    by (auto simp: same_decoding_def same_map_def example_lib_def reversed_decoder_def
          example_object_def)
  from iteration_order_irrelevant [OF h] h show ?thesis
    by blast
qed

end
